theory Spec2Isabelle
  imports Complex_Main "HOL-Library.Word"
begin

section \<open>Characters and strings\<close>

text \<open>
  A JavaScript string is a sequence of 16-bit code units. The character source of
  \<^verbatim>\<open>cstdio.ts\<close> splits the joined command line into one-unit strings, and character
  codes are numbers: the code of a unit, or \<open>EOF = -1\<close>.
\<close>

type_synonym char16 = "16 word"
type_synonym jsstring = "char16 list"

definition ch :: "char \<Rightarrow> char16" where
  \<comment> \<open>a one-character literal of the source, such as \<^verbatim>\<open>'('\<close>\<close>
  "ch c = word_of_nat (of_char c)"

definition str :: "string \<Rightarrow> jsstring" where
  \<comment> \<open>a string literal of the source, such as \<^verbatim>\<open>"def"\<close>\<close>
  "str cs = map ch cs"

text \<open>
  \<^verbatim>\<open>lib.ts\<close>, which exports \<^verbatim>\<open>toCharCode\<close> and \<^verbatim>\<open>fromCharCode\<close>, is not among the
  sources. The two functions are modelled after the way the sources use them and after the
  library functions they are named after.
\<close>

definition toCharCode :: "char16 \<Rightarrow> int" where
  \<comment> \<open>Modelled from the spec: \<^verbatim>\<open>toCharCode\<close> of the missing \<^verbatim>\<open>lib.ts\<close>. It gives the code of a
      one-character string ("emit the current character itself as a single-character
      token"), as \<^verbatim>\<open>charCodeAt(0)\<close> does: a number from 0 to 65535.\<close>
  "toCharCode c = uint c"

definition fromCharCode :: "int \<Rightarrow> char16" where
  \<comment> \<open>Modelled from the spec: \<^verbatim>\<open>fromCharCode\<close> of the missing \<^verbatim>\<open>lib.ts\<close>. It gives the
      one-character string of a code, as \<^verbatim>\<open>String.fromCharCode\<close> does, which takes its
      argument modulo \<open>2 ^ 16\<close>; so \<^verbatim>\<open>EOF\<close> gives the character \<open>0xFFFF\<close>, which is in no
      class of \<^verbatim>\<open>cctype.ts\<close>.\<close>
  "fromCharCode c = word_of_int c"

subsection \<open>cctype.ts\<close>

definition in_range :: "char \<Rightarrow> char \<Rightarrow> char16 \<Rightarrow> bool" where
  \<comment> \<open>a character class range \<^verbatim>\<open>[a-z]\<close> of a regular expression, tested on one unit\<close>
  "in_range lo hi c \<longleftrightarrow> ch lo \<le> c \<and> c \<le> ch hi"

definition isalnum :: "int \<Rightarrow> bool" where
  "isalnum c \<longleftrightarrow>
     (let s = fromCharCode c
      in in_range CHR ''a'' CHR ''z'' s \<or> in_range CHR ''A'' CHR ''Z'' s \<or> in_range CHR ''0'' CHR ''9'' s)"

definition isalpha :: "int \<Rightarrow> bool" where
  "isalpha c \<longleftrightarrow>
     (let s = fromCharCode c in in_range CHR ''a'' CHR ''z'' s \<or> in_range CHR ''A'' CHR ''Z'' s)"

definition isdigit :: "int \<Rightarrow> bool" where
  "isdigit c \<longleftrightarrow> in_range CHR ''0'' CHR ''9'' (fromCharCode c)"

definition isspace :: "int \<Rightarrow> bool" where
  "isspace c \<longleftrightarrow>
     (let s = fromCharCode c
      in s = ch CHR '' '' \<or> s = ch CHR 0x09 \<or> s = ch CHR 0x0A \<or>
         s = ch CHR 0x0B \<or> s = ch CHR 0x0C \<or> s = ch CHR 0x0D)"

section \<open>Numbers\<close>

text \<open>
  \<^verbatim>\<open>NumVal\<close> holds what \<^verbatim>\<open>parseFloat\<close> returns: \<open>NaN\<close>, or the number value of a
  decimal literal. \<open>Finite q\<close> stands for the double that the rational \<open>q\<close>, the exact value
  of the literal, is rounded to; the rounding itself is not modelled.
\<close>

datatype number = NaN | Finite rat

definition digit_val :: "char16 \<Rightarrow> nat" where
  "digit_val c = unat c - 48"

definition digits_val :: "jsstring \<Rightarrow> nat" where
  "digits_val ds = foldl (\<lambda>a c. 10 * a + digit_val c) 0 ds"

definition parseFloat :: "jsstring \<Rightarrow> number" where
  \<comment> \<open>The builtin of ECMAScript, on the texts the lexer hands it: a text of digits and
      dots has no white space, sign, exponent or \<^verbatim>\<open>Infinity\<close>, so its longest prefix
      that is a decimal literal is a run of digits, then at most one dot and a run of
      digits, with a digit somewhere; a text without such a prefix gives \<open>NaN\<close>.\<close>
  "parseFloat s =
     (let d = in_range CHR ''0'' CHR ''9'';
          ip = takeWhile d s;
          r = dropWhile d s;
          fp = (case r of [] \<Rightarrow> [] | c # r' \<Rightarrow> if c = ch CHR ''.'' then takeWhile d r' else [])
      in if ip = [] \<and> fp = [] then NaN
         else Finite (of_nat (digits_val ip) + of_nat (digits_val fp) / 10 ^ length fp))"

section \<open>Program state\<close>

text \<open>
  The module-level variables of \<^verbatim>\<open>cstdio.ts\<close> and \<^verbatim>\<open>main.ts\<close>, and the lines written
  with \<^verbatim>\<open>console.error\<close>. \<^verbatim>\<open>await\<close> only sequences the calls, so the asynchronous
  functions are modelled as functions from state to result and state.
\<close>

record state =
  stream :: jsstring
  LastChar :: int
  IdentifierStr :: jsstring
  NumVal :: number
  CurTok :: int
  BinopPrecedence :: "int \<rightharpoonup> int"
  console :: "string list"

subsection \<open>cstdio.ts\<close>

definition EOF :: int where
  "EOF = - 1"

definition argv_stream :: "jsstring list \<Rightarrow> jsstring" where
  \<comment> \<open>\<^verbatim>\<open>process.argv.slice(2).join(' ').split('')\<close>\<close>
  "argv_stream args = (case args of [] \<Rightarrow> [] | a # as \<Rightarrow> foldl (\<lambda>r b. r @ ch CHR '' '' # b) a as)"

definition getchar :: "state \<Rightarrow> int \<times> state" where
  \<comment> \<open>every element of the stream is a one-unit string, hence truthy\<close>
  "getchar s = (case stream s of [] \<Rightarrow> (EOF, s) | c # cs \<Rightarrow> (toCharCode c, s\<lparr>stream := cs\<rparr>))"

section \<open>Lexer\<close>

definition tok_eof :: int where "tok_eof = - 1"
definition tok_def :: int where "tok_def = - 2"
definition tok_extern :: int where "tok_extern = - 3"
definition tok_identifier :: int where "tok_identifier = - 4"
definition tok_number :: int where "tok_number = - 5"

definition advance :: "state \<Rightarrow> state" where
  \<comment> \<open>the statement \<^verbatim>\<open>LastChar = await getchar()\<close>\<close>
  "advance s = (let (c, s') = getchar s in s'\<lparr>LastChar := c\<rparr>)"

lemma stream_advance: "stream (advance s) = tl (stream s)"
  by (simp add: advance_def getchar_def split: list.splits)

lemma LastChar_advance:
  "LastChar (advance s) = (case stream s of [] \<Rightarrow> EOF | c # cs \<Rightarrow> toCharCode c)"
  by (simp add: advance_def getchar_def split: list.splits)

lemma fromCharCode_EOF: "fromCharCode EOF = 0xFFFF"
  by (simp add: fromCharCode_def EOF_def)

lemma ch_simps:
  "ch CHR ''a'' = 97" "ch CHR ''z'' = 122" "ch CHR ''A'' = 65" "ch CHR ''Z'' = 90"
  "ch CHR ''0'' = 48" "ch CHR ''9'' = 57" "ch CHR '' '' = 32" "ch CHR 0x09 = 9"
  "ch CHR 0x0A = 10" "ch CHR 0x0B = 11" "ch CHR 0x0C = 12" "ch CHR 0x0D = 13"
  "ch CHR ''.'' = 46" "ch CHR ''#'' = 35"
  by (simp_all add: ch_def)

lemma EOF_class:
  "\<not> isspace EOF" "\<not> isalpha EOF" "\<not> isalnum EOF" "\<not> isdigit EOF"
  by (simp_all add: isspace_def isalpha_def isalnum_def isdigit_def in_range_def
      fromCharCode_EOF ch_simps)

lemma toCharCode_nonneg: "0 \<le> toCharCode c"
  by (simp add: toCharCode_def)

lemma EOF_not_char: "EOF \<noteq> toCharCode c" "toCharCode c \<noteq> EOF"
  using toCharCode_nonneg [of c] by (simp_all add: EOF_def)

function skip_space :: "state \<Rightarrow> state" where
  \<comment> \<open>\<^verbatim>\<open>while (isspace(LastChar)) LastChar = await getchar();\<close>\<close>
  "skip_space s = (if isspace (LastChar s) then skip_space (advance s) else s)"
  by pat_completeness auto
termination
proof (relation "measure (\<lambda>s. 2 * length (stream s) + (if isspace (LastChar s) then 1 else 0))")
  fix s :: state
  assume "isspace (LastChar s)"
  then show "(advance s, s) \<in> measure (\<lambda>s. 2 * length (stream s) + (if isspace (LastChar s) then 1 else 0))"
    by (cases "stream s") (simp_all add: stream_advance LastChar_advance EOF_class)
qed simp

declare skip_space.simps [simp del]

function ident_loop :: "state \<Rightarrow> state" where
  \<comment> \<open>\<^verbatim>\<open>while (isalnum((LastChar = await getchar()))) IdentifierStr += fromCharCode(LastChar);\<close>\<close>
  "ident_loop s =
     (let s' = advance s
      in if isalnum (LastChar s')
         then ident_loop (s'\<lparr>IdentifierStr := IdentifierStr s' @ [fromCharCode (LastChar s')]\<rparr>)
         else s')"
  by pat_completeness auto
termination
proof (relation "measure (\<lambda>s. length (stream s))")
  fix s s' :: state
  assume "s' = advance s" "isalnum (LastChar s')"
  then show "(s'\<lparr>IdentifierStr := IdentifierStr s' @ [fromCharCode (LastChar s')]\<rparr>, s)
      \<in> measure (\<lambda>s. length (stream s))"
    by (cases "stream s") (simp_all add: stream_advance LastChar_advance EOF_class)
qed simp

declare ident_loop.simps [simp del]

function num_loop :: "jsstring \<Rightarrow> state \<Rightarrow> jsstring \<times> state" where
  \<comment> \<open>\<^verbatim>\<open>do { NumStr += fromCharCode(LastChar); LastChar = await getchar(); }
      while (isdigit(LastChar) || LastChar === toCharCode('.'));\<close>\<close>
  "num_loop NumStr s =
     (let NumStr' = NumStr @ [fromCharCode (LastChar s)];
          s' = advance s
      in if isdigit (LastChar s') \<or> LastChar s' = toCharCode (ch CHR ''.'')
         then num_loop NumStr' s'
         else (NumStr', s'))"
  by pat_completeness auto
termination
proof (relation "measure (\<lambda>(n, s). length (stream s))")
  fix NumStr NumStr' :: jsstring and s s' :: state
  assume "s' = advance s" "isdigit (LastChar s') \<or> LastChar s' = toCharCode (ch CHR ''.'')"
  then show "((NumStr', s'), (NumStr, s)) \<in> measure (\<lambda>(n, s). length (stream s))"
    by (cases "stream s")
      (auto simp: stream_advance LastChar_advance EOF_class EOF_not_char)
qed simp

declare num_loop.simps [simp del]

function comment_loop :: "state \<Rightarrow> state" where
  \<comment> \<open>\<^verbatim>\<open>do { LastChar = await getchar(); }
      while (LastChar !== EOF && LastChar !== toCharCode('\n') && LastChar !== toCharCode('\r'));\<close>\<close>
  "comment_loop s =
     (let s' = advance s
      in if LastChar s' \<noteq> EOF \<and> LastChar s' \<noteq> toCharCode (ch CHR 0x0A)
            \<and> LastChar s' \<noteq> toCharCode (ch CHR 0x0D)
         then comment_loop s'
         else s')"
  by pat_completeness auto
termination
proof (relation "measure (\<lambda>s. length (stream s))")
  fix s s' :: state
  assume "s' = advance s"
    "LastChar s' \<noteq> EOF \<and> LastChar s' \<noteq> toCharCode (ch CHR 0x0A) \<and> LastChar s' \<noteq> toCharCode (ch CHR 0x0D)"
  then show "(s', s) \<in> measure (\<lambda>s. length (stream s))"
    by (cases "stream s") (simp_all add: stream_advance LastChar_advance)
qed simp

declare comment_loop.simps [simp del]

lemma stream_skip_space: "length (stream (skip_space s)) \<le> length (stream s)"
proof (induction s rule: skip_space.induct)
  case (1 s)
  show ?case
  proof (cases "isspace (LastChar s)")
    case True
    with 1 have "length (stream (skip_space (advance s))) \<le> length (stream (advance s))"
      by simp
    with True show ?thesis
      by (subst skip_space.simps) (simp add: stream_advance)
  next
    case False
    then show ?thesis by (subst skip_space.simps) simp
  qed
qed

lemma stream_comment_loop:
  "LastChar (comment_loop s) \<noteq> EOF \<Longrightarrow> length (stream (comment_loop s)) < length (stream s)"
proof (induction s rule: comment_loop.induct)
  case (1 s)
  let ?s' = "advance s"
  let ?c = "LastChar ?s' \<noteq> EOF \<and> LastChar ?s' \<noteq> toCharCode (ch CHR 0x0A)
            \<and> LastChar ?s' \<noteq> toCharCode (ch CHR 0x0D)"
  show ?case
  proof (cases ?c)
    case True
    then have eq: "comment_loop s = comment_loop ?s'"
      by (subst comment_loop.simps) (simp add: Let_def)
    with 1 True have "length (stream (comment_loop ?s')) < length (stream ?s')"
      by simp
    with eq show ?thesis by (simp add: stream_advance)
  next
    case False
    then have eq: "comment_loop s = ?s'"
      by (subst comment_loop.simps) (auto simp: Let_def)
    with 1(2) have "LastChar ?s' \<noteq> EOF" by simp
    then have "stream s \<noteq> []"
      by (auto simp: LastChar_advance)
    with eq show ?thesis by (simp add: stream_advance)
  qed
qed

function gettok :: "state \<Rightarrow> int \<times> state" where
  "gettok s0 =
     (let s = skip_space s0
      in if isalpha (LastChar s) then
           (let s1 = ident_loop (s\<lparr>IdentifierStr := [fromCharCode (LastChar s)]\<rparr>)
            in if IdentifierStr s1 = str ''def'' then (tok_def, s1)
               else if IdentifierStr s1 = str ''extern'' then (tok_extern, s1)
               else (tok_identifier, s1))
         else if isdigit (LastChar s) \<or> LastChar s = toCharCode (ch CHR ''.'') then
           (let (NumStr, s1) = num_loop [] s
            in (tok_number, s1\<lparr>NumVal := parseFloat NumStr\<rparr>))
         else if LastChar s = toCharCode (ch CHR ''#'') \<and> LastChar (comment_loop s) \<noteq> EOF then
           gettok (comment_loop s)
         else
           (let s2 = (if LastChar s = toCharCode (ch CHR ''#'') then comment_loop s else s)
            in if LastChar s2 = EOF then (tok_eof, s2)
               else (LastChar s2, advance s2)))"
  by pat_completeness auto
termination
proof (relation "measure (\<lambda>s. length (stream s))")
  fix s0 s :: state
  assume "s = skip_space s0"
    "LastChar s = toCharCode (ch CHR ''#'') \<and> LastChar (comment_loop s) \<noteq> EOF"
  then have "length (stream (comment_loop s)) < length (stream s)"
    "length (stream s) \<le> length (stream s0)"
    by (simp_all add: stream_comment_loop stream_skip_space)
  then show "(comment_loop s, s0) \<in> measure (\<lambda>s. length (stream s))"
    by simp
qed simp

declare gettok.simps [simp del]


subsection \<open>The lexer consumes its input\<close>

definition lexm :: "state \<Rightarrow> nat" where
  \<comment> \<open>the characters still to be scanned: the stream and a lookahead that is not \<open>EOF\<close>\<close>
  "lexm s = length (stream s) + (if LastChar s = EOF then 0 else 1)"

lemma lexm_advance_le: "lexm (advance s) \<le> lexm s"
  by (cases "stream s") (simp_all add: lexm_def stream_advance LastChar_advance)

lemma lexm_advance_less: "LastChar s \<noteq> EOF \<Longrightarrow> lexm (advance s) < lexm s"
  by (cases "stream s") (simp_all add: lexm_def stream_advance LastChar_advance)

lemma lexm_skip_space: "lexm (skip_space s) \<le> lexm s"
proof (induction s rule: skip_space.induct)
  case (1 s)
  show ?case
  proof (cases "isspace (LastChar s)")
    case True
    with 1 have "lexm (skip_space (advance s)) \<le> lexm (advance s)"
      by simp
    also have "\<dots> \<le> lexm s"
      by (rule lexm_advance_le)
    finally show ?thesis
      using True by (subst skip_space.simps) simp
  next
    case False
    then show ?thesis by (subst skip_space.simps) simp
  qed
qed

lemma lexm_IdentifierStr [simp]: "lexm (s\<lparr>IdentifierStr := x\<rparr>) = lexm s"
  by (simp add: lexm_def)

lemma lexm_NumVal [simp]: "lexm (s\<lparr>NumVal := x\<rparr>) = lexm s"
  by (simp add: lexm_def)

lemma lexm_CurTok [simp]: "lexm (s\<lparr>CurTok := x\<rparr>) = lexm s"
  by (simp add: lexm_def)

lemma lexm_console [simp]: "lexm (s\<lparr>console := x\<rparr>) = lexm s"
  by (simp add: lexm_def)

lemma lexm_ident_loop: "lexm (ident_loop s) \<le> lexm (advance s)"
proof (induction s rule: ident_loop.induct)
  case (1 s)
  let ?s' = "advance s"
  let ?s2 = "?s'\<lparr>IdentifierStr := IdentifierStr ?s' @ [fromCharCode (LastChar ?s')]\<rparr>"
  show ?case
  proof (cases "isalnum (LastChar ?s')")
    case True
    then have eq: "ident_loop s = ident_loop ?s2"
      by (subst ident_loop.simps) (simp add: Let_def)
    from 1 True have "lexm (ident_loop ?s2) \<le> lexm (advance ?s2)"
      by simp
    also have "\<dots> \<le> lexm ?s2"
      by (rule lexm_advance_le)
    finally show ?thesis
      using eq by simp
  next
    case False
    then have "ident_loop s = ?s'"
      by (subst ident_loop.simps) (simp add: Let_def)
    then show ?thesis by simp
  qed
qed

lemma lexm_num_loop: "lexm (snd (num_loop b s)) \<le> lexm (advance s)"
proof (induction b s rule: num_loop.induct)
  case (1 NumStr s)
  let ?b = "NumStr @ [fromCharCode (LastChar s)]"
  let ?s' = "advance s"
  let ?c = "isdigit (LastChar ?s') \<or> LastChar ?s' = toCharCode (ch CHR ''.'')"
  show ?case
  proof (cases ?c)
    case True
    then have eq: "num_loop NumStr s = num_loop ?b ?s'"
      by (subst num_loop.simps) (auto simp: Let_def)
    from 1 True have "lexm (snd (num_loop ?b ?s')) \<le> lexm (advance ?s')"
      by blast
    also have "\<dots> \<le> lexm ?s'"
      by (rule lexm_advance_le)
    finally show ?thesis
      using eq by simp
  next
    case False
    then have "num_loop NumStr s = (?b, ?s')"
      by (subst num_loop.simps) (auto simp: Let_def)
    then show ?thesis by simp
  qed
qed

lemma lexm_comment_loop: "lexm (comment_loop s) \<le> lexm (advance s)"
proof (induction s rule: comment_loop.induct)
  case (1 s)
  let ?s' = "advance s"
  let ?c = "LastChar ?s' \<noteq> EOF \<and> LastChar ?s' \<noteq> toCharCode (ch CHR 0x0A)
            \<and> LastChar ?s' \<noteq> toCharCode (ch CHR 0x0D)"
  show ?case
  proof (cases ?c)
    case True
    then have eq: "comment_loop s = comment_loop ?s'"
      by (subst comment_loop.simps) (simp add: Let_def)
    from 1 True have "lexm (comment_loop ?s') \<le> lexm (advance ?s')"
      by simp
    also have "\<dots> \<le> lexm ?s'"
      by (rule lexm_advance_le)
    finally show ?thesis
      using eq by simp
  next
    case False
    then have "comment_loop s = ?s'"
      by (subst comment_loop.simps) (auto simp: Let_def)
    then show ?thesis by simp
  qed
qed

lemma not_EOF_class:
  "isalpha c \<Longrightarrow> c \<noteq> EOF" "isdigit c \<Longrightarrow> c \<noteq> EOF" "isspace c \<Longrightarrow> c \<noteq> EOF"
  using EOF_class by auto

lemma lexm_gettok:
  "lexm (snd (gettok s)) \<le> lexm s \<and> (fst (gettok s) \<noteq> tok_eof \<longrightarrow> lexm (snd (gettok s)) < lexm s)"
proof (induction s rule: gettok.induct)
  case (1 s0)
  let ?s = "skip_space s0"
  have le: "lexm ?s \<le> lexm s0"
    by (rule lexm_skip_space)
  consider (ident) "isalpha (LastChar ?s)"
    | (num) "\<not> isalpha (LastChar ?s)" "isdigit (LastChar ?s) \<or> LastChar ?s = toCharCode (ch CHR ''.'')"
    | (rec) "\<not> isalpha (LastChar ?s)" "\<not> (isdigit (LastChar ?s) \<or> LastChar ?s = toCharCode (ch CHR ''.''))"
        "LastChar ?s = toCharCode (ch CHR ''#'') \<and> LastChar (comment_loop ?s) \<noteq> EOF"
    | (rest) "\<not> isalpha (LastChar ?s)" "\<not> (isdigit (LastChar ?s) \<or> LastChar ?s = toCharCode (ch CHR ''.''))"
        "\<not> (LastChar ?s = toCharCode (ch CHR ''#'') \<and> LastChar (comment_loop ?s) \<noteq> EOF)"
    by blast
  then show ?case
  proof cases
    case ident
    let ?s1 = "ident_loop (?s\<lparr>IdentifierStr := [fromCharCode (LastChar ?s)]\<rparr>)"
    have "snd (gettok s0) = ?s1"
      using ident by (subst gettok.simps) (simp add: Let_def)
    moreover have "lexm ?s1 \<le> lexm (advance (?s\<lparr>IdentifierStr := [fromCharCode (LastChar ?s)]\<rparr>))"
      by (rule lexm_ident_loop)
    moreover have "lexm (advance (?s\<lparr>IdentifierStr := [fromCharCode (LastChar ?s)]\<rparr>)) < lexm ?s"
      using lexm_advance_less [of "?s\<lparr>IdentifierStr := [fromCharCode (LastChar ?s)]\<rparr>"]
        not_EOF_class(1) [OF ident] by simp
    ultimately show ?thesis using le by simp
  next
    case num
    have "snd (gettok s0) = (snd (num_loop [] ?s))\<lparr>NumVal := parseFloat (fst (num_loop [] ?s))\<rparr>"
      using num by (subst gettok.simps) (simp add: Let_def split_beta)
    moreover have "lexm (snd (num_loop [] ?s)) \<le> lexm (advance ?s)"
      by (rule lexm_num_loop)
    moreover have "lexm (advance ?s) < lexm ?s"
      using num(2) not_EOF_class(2) EOF_not_char by (intro lexm_advance_less) auto
    ultimately show ?thesis using le by simp
  next
    case rec
    have eq: "gettok s0 = gettok (comment_loop ?s)"
      using rec by (subst gettok.simps) (simp add: Let_def)
    have "lexm (comment_loop ?s) \<le> lexm (advance ?s)"
      by (rule lexm_comment_loop)
    also have "\<dots> \<le> lexm ?s"
      by (rule lexm_advance_le)
    finally have "lexm (comment_loop ?s) \<le> lexm s0"
      using le by simp
    moreover from "1" rec have
      "lexm (snd (gettok (comment_loop ?s))) \<le> lexm (comment_loop ?s) \<and>
       (fst (gettok (comment_loop ?s)) \<noteq> tok_eof \<longrightarrow>
        lexm (snd (gettok (comment_loop ?s))) < lexm (comment_loop ?s))"
      by blast
    ultimately show ?thesis using eq by auto
  next
    case rest
    let ?s2 = "if LastChar ?s = toCharCode (ch CHR ''#'') then comment_loop ?s else ?s"
    have eq: "gettok s0 = (if LastChar ?s2 = EOF then (tok_eof, ?s2) else (LastChar ?s2, advance ?s2))"
      using rest by (subst gettok.simps) (auto simp: Let_def)
    have "lexm (comment_loop ?s) \<le> lexm (advance ?s)"
      by (rule lexm_comment_loop)
    also have "\<dots> \<le> lexm ?s"
      by (rule lexm_advance_le)
    finally have le2: "lexm ?s2 \<le> lexm s0"
      using le by simp
    show ?thesis
    proof (cases "LastChar ?s2 = EOF")
      case True
      with eq le2 show ?thesis by simp
    next
      case False
      then have "lexm (advance ?s2) < lexm ?s2"
        by (rule lexm_advance_less)
      with eq le2 False show ?thesis by simp
    qed
  qed
qed


lemma lexm_gettok_less: "fst (gettok s) \<noteq> tok_eof \<Longrightarrow> lexm (snd (gettok s)) < lexm s"
  using lexm_gettok by blast

section \<open>Abstract syntax tree\<close>

datatype ExprAST =
    NumberExprAST number
  | VariableExprAST jsstring
  | BinaryExprAST int ExprAST ExprAST
  | CallExprAST jsstring "ExprAST list"

datatype PrototypeAST = PrototypeAST jsstring "jsstring list"

datatype FunctionAST = FunctionAST PrototypeAST ExprAST

section \<open>Parser\<close>

definition getNextToken :: "state \<Rightarrow> int \<times> state" where
  "getNextToken s = (let (t, s') = gettok s in (t, s'\<lparr>CurTok := t\<rparr>))"

definition GetTokPrecedence :: "state \<Rightarrow> int" where
  \<comment> \<open>\<^verbatim>\<open>!TokPrec\<close> holds of \<^verbatim>\<open>undefined\<close> (no entry) and of \<open>0\<close>\<close>
  "GetTokPrecedence s =
     (case BinopPrecedence s (CurTok s) of
        None \<Rightarrow> - 1
      | Some TokPrec \<Rightarrow> if TokPrec = 0 \<or> TokPrec \<le> 0 then - 1 else TokPrec)"

definition LogError :: "string \<Rightarrow> state \<Rightarrow> ExprAST option \<times> state" where
  \<comment> \<open>\<^verbatim>\<open>console.error("LogError: %s", Str); return null;\<close>\<close>
  "LogError Str s = (None, s\<lparr>console := console s @ [''LogError: '' @ Str]\<rparr>)"

definition LogErrorP :: "string \<Rightarrow> state \<Rightarrow> PrototypeAST option \<times> state" where
  "LogErrorP Str s = (None, snd (LogError Str s))"

definition ParseNumberExpr :: "state \<Rightarrow> ExprAST option \<times> state" where
  "ParseNumberExpr s =
     (let Result = NumberExprAST (NumVal s);
          s1 = snd (getNextToken s)
      in (Some Result, s1))"

text \<open>
  The expression parser is recursive through \<^verbatim>\<open>ParsePrimary\<close>, \<^verbatim>\<open>ParseParenExpr\<close>,
  \<^verbatim>\<open>ParseIdentifierExpr\<close>, \<^verbatim>\<open>ParseBinOpRHS\<close> and \<^verbatim>\<open>ParseExpression\<close>. Each of them
  takes a bound on the depth of calls and loop iterations still allowed and returns \<open>None\<close>
  when the bound is used up; otherwise \<open>Some (r, s)\<close>, where \<open>r = None\<close> is the source's
  \<^verbatim>\<open>null\<close>. That the bound can always be chosen large enough is proved below.
  \<open>ParseIdentifierExpr_args\<close> is the \<^verbatim>\<open>while (true)\<close> loop of \<^verbatim>\<open>ParseIdentifierExpr\<close>.
\<close>

fun ParsePrimary :: "nat \<Rightarrow> state \<Rightarrow> (ExprAST option \<times> state) option"
  and ParseParenExpr :: "nat \<Rightarrow> state \<Rightarrow> (ExprAST option \<times> state) option"
  and ParseIdentifierExpr :: "nat \<Rightarrow> state \<Rightarrow> (ExprAST option \<times> state) option"
  and ParseIdentifierExpr_args :: "nat \<Rightarrow> ExprAST list \<Rightarrow> state \<Rightarrow> (ExprAST list option \<times> state) option"
  and ParseBinOpRHS :: "nat \<Rightarrow> int \<Rightarrow> ExprAST \<Rightarrow> state \<Rightarrow> (ExprAST option \<times> state) option"
  and ParseExpression :: "nat \<Rightarrow> state \<Rightarrow> (ExprAST option \<times> state) option"
where
  "ParsePrimary 0 s = None"
| "ParsePrimary (Suc n) s =
     (if CurTok s = tok_identifier then ParseIdentifierExpr n s
      else if CurTok s = tok_number then Some (ParseNumberExpr s)
      else if CurTok s = toCharCode (ch CHR ''('') then ParseParenExpr n s
      else Some (LogError ''unknown token when expecting an expression'' s))"
| "ParseParenExpr 0 s = None"
| "ParseParenExpr (Suc n) s =
     (let s1 = snd (getNextToken s)
      in case ParseExpression n s1 of
           None \<Rightarrow> None
         | Some (None, s2) \<Rightarrow> Some (None, s2)
         | Some (Some V, s2) \<Rightarrow>
             if CurTok s2 \<noteq> toCharCode (ch CHR '')'') then Some (LogError (''expected ')'' @ [CHR 0x27]) s2)
             else Some (Some V, snd (getNextToken s2)))"
| "ParseIdentifierExpr 0 s = None"
| "ParseIdentifierExpr (Suc n) s =
     (let IdName = IdentifierStr s;
          s1 = snd (getNextToken s)
      in if CurTok s1 \<noteq> toCharCode (ch CHR ''('') then Some (Some (VariableExprAST IdName), s1)
         else
           (let s2 = snd (getNextToken s1)
            in if CurTok s2 \<noteq> toCharCode (ch CHR '')'') then
                 (case ParseIdentifierExpr_args n [] s2 of
                    None \<Rightarrow> None
                  | Some (None, s3) \<Rightarrow> Some (None, s3)
                  | Some (Some Args, s3) \<Rightarrow> Some (Some (CallExprAST IdName Args), snd (getNextToken s3)))
               else Some (Some (CallExprAST IdName []), snd (getNextToken s2))))"
| "ParseIdentifierExpr_args 0 Args s = None"
| "ParseIdentifierExpr_args (Suc n) Args s =
     (case ParseExpression n s of
        None \<Rightarrow> None
      | Some (None, s1) \<Rightarrow> Some (None, s1)
      | Some (Some Arg', s1) \<Rightarrow>
          (let Args' = Args @ [Arg']
           in if CurTok s1 = toCharCode (ch CHR '')'') then Some (Some Args', s1)
              else if CurTok s1 \<noteq> toCharCode (ch CHR '','') then
                Some (None, snd (LogError ''Expected ')' or ',' in argument list'' s1))
              else ParseIdentifierExpr_args n Args' (snd (getNextToken s1))))"
| "ParseBinOpRHS 0 ExprPrec LHS s = None"
| "ParseBinOpRHS (Suc n) ExprPrec LHS s =
     (let TokPrec = GetTokPrecedence s
      in if TokPrec < ExprPrec then Some (Some LHS, s)
         else
           (let BinOp = CurTok s;
                s1 = snd (getNextToken s)
            in case ParsePrimary n s1 of
                 None \<Rightarrow> None
               | Some (None, s2) \<Rightarrow> Some (None, s2)
               | Some (Some RHS, s2) \<Rightarrow>
                   (let NextPrec = GetTokPrecedence s2
                    in if TokPrec < NextPrec then
                         (case ParseBinOpRHS n (TokPrec + 1) RHS s2 of
                            None \<Rightarrow> None
                          | Some (None, s3) \<Rightarrow> Some (None, s3)
                          | Some (Some RHS', s3) \<Rightarrow>
                              ParseBinOpRHS n ExprPrec (BinaryExprAST BinOp LHS RHS') s3)
                       else ParseBinOpRHS n ExprPrec (BinaryExprAST BinOp LHS RHS) s2)))"
| "ParseExpression 0 s = None"
| "ParseExpression (Suc n) s =
     (case ParsePrimary n s of
        None \<Rightarrow> None
      | Some (None, s1) \<Rightarrow> Some (None, s1)
      | Some (Some LHS, s1) \<Rightarrow> ParseBinOpRHS n 0 LHS s1)"


declare ParsePrimary.simps [simp del] ParseParenExpr.simps [simp del]
  ParseIdentifierExpr.simps [simp del] ParseIdentifierExpr_args.simps [simp del]
  ParseBinOpRHS.simps [simp del] ParseExpression.simps [simp del]


lemma lexm_getNextToken_less:
  "fst (getNextToken s) \<noteq> tok_eof \<Longrightarrow> lexm (snd (getNextToken s)) < lexm s"
  using lexm_gettok_less [of s] by (simp add: getNextToken_def split_beta)

function ParsePrototype_args :: "jsstring list \<Rightarrow> state \<Rightarrow> jsstring list \<times> state" where
  \<comment> \<open>\<^verbatim>\<open>while (await getNextToken() === Token.tok_identifier) ArgsNames.push(IdentifierStr);\<close>\<close>
  "ParsePrototype_args ArgsNames s =
     (let (t, s') = getNextToken s
      in if t = tok_identifier then ParsePrototype_args (ArgsNames @ [IdentifierStr s']) s'
         else (ArgsNames, s'))"
  by pat_completeness auto
termination
proof (relation "measure (\<lambda>(a, s). lexm s)")
  fix ArgsNames :: "jsstring list" and s s' :: state and x t
  assume "x = getNextToken s" "(t, s') = x" "t = tok_identifier"
  then have "fst (getNextToken s) \<noteq> tok_eof" "s' = snd (getNextToken s)"
    by (auto simp: tok_identifier_def tok_eof_def dest: arg_cong [where f = fst] arg_cong [where f = snd])
  then show "((ArgsNames @ [IdentifierStr s'], s'), (ArgsNames, s)) \<in> measure (\<lambda>(a, s). lexm s)"
    using lexm_getNextToken_less [of s] by simp
qed simp

declare ParsePrototype_args.simps [simp del]

definition ParsePrototype :: "state \<Rightarrow> PrototypeAST option \<times> state" where
  "ParsePrototype s =
     (if CurTok s \<noteq> tok_identifier then LogErrorP ''Expected function name in prototype'' s
      else
        (let FnName = IdentifierStr s;
             s1 = snd (getNextToken s)
         in if CurTok s1 \<noteq> toCharCode (ch CHR ''('') then LogErrorP ''Expected '(' in prototype'' s1
            else
              (let (ArgsNames, s2) = ParsePrototype_args [] s1
               in if CurTok s2 \<noteq> toCharCode (ch CHR '')'') then LogErrorP ''Expected ')' in prototype'' s2
                  else (Some (PrototypeAST FnName ArgsNames), snd (getNextToken s2)))))"

definition ParseDefinition :: "nat \<Rightarrow> state \<Rightarrow> (FunctionAST option \<times> state) option" where
  "ParseDefinition n s =
     (let s1 = snd (getNextToken s)
      in case ParsePrototype s1 of
           (None, s2) \<Rightarrow> Some (None, s2)
         | (Some Proto, s2) \<Rightarrow>
             (case ParseExpression n s2 of
                None \<Rightarrow> None
              | Some (Some E, s3) \<Rightarrow> Some (Some (FunctionAST Proto E), s3)
              | Some (None, s3) \<Rightarrow> Some (None, s3)))"

definition ParseTopLevelExpr :: "nat \<Rightarrow> state \<Rightarrow> (FunctionAST option \<times> state) option" where
  "ParseTopLevelExpr n s =
     (case ParseExpression n s of
        None \<Rightarrow> None
      | Some (Some E, s1) \<Rightarrow>
          (let Proto = PrototypeAST (str '''') [] in Some (Some (FunctionAST Proto E), s1))
      | Some (None, s1) \<Rightarrow> Some (None, s1))"

definition ParseExtern :: "state \<Rightarrow> PrototypeAST option \<times> state" where
  "ParseExtern s = ParsePrototype (snd (getNextToken s))"

section \<open>Top-level parsing\<close>

definition print :: "string \<Rightarrow> state \<Rightarrow> state" where
  \<comment> \<open>\<^verbatim>\<open>console.error\<close> of one line\<close>
  "print line s = s\<lparr>console := console s @ [line]\<rparr>"

definition HandleDefinition :: "nat \<Rightarrow> state \<Rightarrow> state option" where
  "HandleDefinition n s =
     (case ParseDefinition n s of
        None \<Rightarrow> None
      | Some (Some F, s1) \<Rightarrow> Some (print ''Parsed a function definition.'' s1)
      | Some (None, s1) \<Rightarrow> Some (snd (getNextToken s1)))"

definition HandleExtern :: "state \<Rightarrow> state" where
  "HandleExtern s =
     (case ParseExtern s of
        (Some P, s1) \<Rightarrow> print ''Parsed an extern'' s1
      | (None, s1) \<Rightarrow> snd (getNextToken s1))"

definition HandleTopLevelExpression :: "nat \<Rightarrow> state \<Rightarrow> state option" where
  "HandleTopLevelExpression n s =
     (case ParseTopLevelExpr n s of
        None \<Rightarrow> None
      | Some (Some F, s1) \<Rightarrow> Some (print ''Parsed a top-level expr'' s1)
      | Some (None, s1) \<Rightarrow> Some (snd (getNextToken s1)))"

fun MainLoop :: "nat \<Rightarrow> state \<Rightarrow> state option" where
  \<comment> \<open>the bound counts the iterations of \<^verbatim>\<open>while (true)\<close> and is handed to the parser\<close>
  "MainLoop 0 s = None"
| "MainLoop (Suc n) s =
     (if CurTok s = tok_eof then Some s
      else if CurTok s = toCharCode (ch CHR '';'') then MainLoop n (snd (getNextToken s))
      else if CurTok s = tok_def then
        (case HandleDefinition n s of None \<Rightarrow> None | Some s1 \<Rightarrow> MainLoop n s1)
      else if CurTok s = tok_extern then MainLoop n (HandleExtern s)
      else
        (case HandleTopLevelExpression n s of None \<Rightarrow> None | Some s1 \<Rightarrow> MainLoop n s1))"

declare MainLoop.simps [simp del]

section \<open>Main driver code\<close>

definition initial :: "jsstring list \<Rightarrow> state \<Rightarrow> state" where
  \<comment> \<open>The variables after the modules are loaded with command line \<open>args\<close>.
      \<^verbatim>\<open>IdentifierStr\<close>, \<^verbatim>\<open>NumVal\<close> and \<^verbatim>\<open>CurTok\<close> are declared without a value and are
      written before they are read; what they hold until then is taken from \<open>u\<close>.\<close>
  "initial args u =
     \<lparr>stream = argv_stream args, LastChar = toCharCode (ch CHR '' ''),
      IdentifierStr = IdentifierStr u, NumVal = NumVal u, CurTok = CurTok u,
      BinopPrecedence = Map.empty, console = []\<rparr>"

definition BinopPrecedence_set :: "int \<Rightarrow> int \<Rightarrow> state \<Rightarrow> state" where
  "BinopPrecedence_set k v s = s\<lparr>BinopPrecedence := (BinopPrecedence s)(k \<mapsto> v)\<rparr>"

definition install_binops :: "state \<Rightarrow> state" where
  \<comment> \<open>"Install standard binary operators": the four \<^verbatim>\<open>BinopPrecedence.set\<close> of \<^verbatim>\<open>main\<close>\<close>
  "install_binops s =
     (let s1 = BinopPrecedence_set (toCharCode (ch CHR ''<'')) 10 s;
          s2 = BinopPrecedence_set (toCharCode (ch CHR ''+'')) 20 s1;
          s3 = BinopPrecedence_set (toCharCode (ch CHR ''-'')) 30 s2
      in BinopPrecedence_set (toCharCode (ch CHR ''*'')) 40 s3)"

definition startup :: "jsstring list \<Rightarrow> state \<Rightarrow> state" where
  \<comment> \<open>the statements of \<^verbatim>\<open>main\<close> before \<^verbatim>\<open>MainLoop\<close>: the operators, then "prime the first token"\<close>
  "startup args u = snd (getNextToken (install_binops (initial args u)))"

definition main :: "nat \<Rightarrow> jsstring list \<Rightarrow> state \<Rightarrow> (int \<times> state) option" where
  \<comment> \<open>the number returned is the status handed to \<^verbatim>\<open>process.exit\<close>\<close>
  "main n args u =
     (case MainLoop n (startup args u) of
        None \<Rightarrow> None
      | Some s \<Rightarrow> Some (0, s))"

section \<open>Auxiliary definitions\<close>

definition gettoks :: "nat \<Rightarrow> state \<Rightarrow> int list \<times> state" where
  \<comment> \<open>\<open>n\<close> calls of \<^verbatim>\<open>gettok\<close> in a row: the tokens returned and the state left\<close>
  "gettoks n s = ((\<lambda>(ts, s). let (t, s') = gettok s in (ts @ [t], s')) ^^ n) ([], s)"

definition run_ends :: "jsstring \<Rightarrow> bool" where
  \<comment> \<open>the text after a run of digits and dots: nothing, or a character that is neither\<close>
  "run_ends rest \<longleftrightarrow>
     (case rest of [] \<Rightarrow> True | c # cs \<Rightarrow> \<not> isdigit (toCharCode c) \<and> c \<noteq> ch CHR ''.'')"

definition fresh :: state where
  \<comment> \<open>a state for examples: the values it gives the variables without initialiser are never read\<close>
  "fresh = \<lparr>stream = [], LastChar = 0, IdentifierStr = [], NumVal = NaN, CurTok = 0,
     BinopPrecedence = Map.empty, console = []\<rparr>"

subsection \<open>Measures for termination\<close>

definition pm :: "state \<Rightarrow> nat" where
  \<comment> \<open>what the parser has still to read: the characters of \<open>lexm\<close> and a current token that is not \<^verbatim>\<open>tok_eof\<close>\<close>
  "pm s = lexm s + (if CurTok s = tok_eof then 0 else 1)"







section \<open>More fuel changes no result\<close>

definition more_fuel :: "nat \<Rightarrow> bool" where
  \<comment> \<open>a call that returns with the bound \<open>n\<close> returns the same with the bound \<open>Suc n\<close>\<close>
  "more_fuel n \<longleftrightarrow>
     (\<forall>s. ParsePrimary n s \<noteq> None \<longrightarrow> ParsePrimary (Suc n) s = ParsePrimary n s) \<and>
     (\<forall>s. ParseParenExpr n s \<noteq> None \<longrightarrow> ParseParenExpr (Suc n) s = ParseParenExpr n s) \<and>
     (\<forall>s. ParseIdentifierExpr n s \<noteq> None \<longrightarrow> ParseIdentifierExpr (Suc n) s = ParseIdentifierExpr n s) \<and>
     (\<forall>a s. ParseIdentifierExpr_args n a s \<noteq> None \<longrightarrow>
        ParseIdentifierExpr_args (Suc n) a s = ParseIdentifierExpr_args n a s) \<and>
     (\<forall>p l s. ParseBinOpRHS n p l s \<noteq> None \<longrightarrow> ParseBinOpRHS (Suc n) p l s = ParseBinOpRHS n p l s) \<and>
     (\<forall>s. ParseExpression n s \<noteq> None \<longrightarrow> ParseExpression (Suc n) s = ParseExpression n s)"

lemma more_fuelD:
  assumes "more_fuel n"
  shows "ParsePrimary n s \<noteq> None \<Longrightarrow> ParsePrimary (Suc n) s = ParsePrimary n s"
    and "ParseParenExpr n s \<noteq> None \<Longrightarrow> ParseParenExpr (Suc n) s = ParseParenExpr n s"
    and "ParseIdentifierExpr n s \<noteq> None \<Longrightarrow> ParseIdentifierExpr (Suc n) s = ParseIdentifierExpr n s"
    and "ParseIdentifierExpr_args n a s \<noteq> None \<Longrightarrow>
        ParseIdentifierExpr_args (Suc n) a s = ParseIdentifierExpr_args n a s"
    and "ParseBinOpRHS n p l s \<noteq> None \<Longrightarrow> ParseBinOpRHS (Suc n) p l s = ParseBinOpRHS n p l s"
    and "ParseExpression n s \<noteq> None \<Longrightarrow> ParseExpression (Suc n) s = ParseExpression n s"
  using assms unfolding more_fuel_def by blast+

lemma more_fuel_0: "more_fuel 0"
  by (simp add: more_fuel_def ParsePrimary.simps(1) ParseParenExpr.simps(1)
      ParseIdentifierExpr.simps(1) ParseIdentifierExpr_args.simps(1) ParseBinOpRHS.simps(1)
      ParseExpression.simps(1))

lemma more_fuel_Primary:
  assumes "more_fuel n" and "ParsePrimary (Suc n) s \<noteq> None"
  shows "ParsePrimary (Suc n) s = ParsePrimary (Suc (Suc n)) s"
  using assms(2)
  apply (subst (asm) ParsePrimary.simps(2))
  apply (subst ParsePrimary.simps(2))
  apply (subst ParsePrimary.simps(2))
  apply (auto simp: more_fuelD [OF assms(1)] split: if_splits)
  done

lemma more_fuel_Paren:
  assumes "more_fuel n" and "ParseParenExpr (Suc n) s \<noteq> None"
  shows "ParseParenExpr (Suc n) s = ParseParenExpr (Suc (Suc n)) s"
  using assms(2)
  apply (subst (asm) ParseParenExpr.simps(2))
  apply (subst ParseParenExpr.simps(2))
  apply (subst ParseParenExpr.simps(2))
  apply (auto simp: more_fuelD [OF assms(1)] Let_def split: option.splits if_splits)
  done

lemma more_fuel_Identifier:
  assumes "more_fuel n" and "ParseIdentifierExpr (Suc n) s \<noteq> None"
  shows "ParseIdentifierExpr (Suc n) s = ParseIdentifierExpr (Suc (Suc n)) s"
  using assms(2)
  apply (subst (asm) ParseIdentifierExpr.simps(2))
  apply (subst ParseIdentifierExpr.simps(2))
  apply (subst ParseIdentifierExpr.simps(2))
  apply (auto simp: more_fuelD [OF assms(1)] Let_def split: option.splits if_splits)
  done

lemma more_fuel_args:
  assumes "more_fuel n" and "ParseIdentifierExpr_args (Suc n) a s \<noteq> None"
  shows "ParseIdentifierExpr_args (Suc n) a s = ParseIdentifierExpr_args (Suc (Suc n)) a s"
  using assms(2)
  apply (subst (asm) ParseIdentifierExpr_args.simps(2))
  apply (subst ParseIdentifierExpr_args.simps(2))
  apply (subst ParseIdentifierExpr_args.simps(2))
  apply (auto simp: more_fuelD [OF assms(1)] Let_def split: option.splits if_splits)
  done

lemma more_fuel_BinOpRHS:
  assumes "more_fuel n" and "ParseBinOpRHS (Suc n) p l s \<noteq> None"
  shows "ParseBinOpRHS (Suc n) p l s = ParseBinOpRHS (Suc (Suc n)) p l s"
  using assms(2)
  apply (subst (asm) ParseBinOpRHS.simps(2))
  apply (subst ParseBinOpRHS.simps(2))
  apply (subst ParseBinOpRHS.simps(2))
  apply (auto simp: more_fuelD [OF assms(1)] Let_def split: option.splits if_splits)
  done

lemma more_fuel_Expression:
  assumes "more_fuel n" and "ParseExpression (Suc n) s \<noteq> None"
  shows "ParseExpression (Suc n) s = ParseExpression (Suc (Suc n)) s"
  using assms(2)
  apply (subst (asm) ParseExpression.simps(2))
  apply (subst ParseExpression.simps(2))
  apply (subst ParseExpression.simps(2))
  apply (auto simp: more_fuelD [OF assms(1)] Let_def split: option.splits if_splits)
  done

lemma more_fuel: "more_fuel n"
proof (induction n)
  case 0
  show ?case by (rule more_fuel_0)
next
  case (Suc n)
  show ?case
    unfolding more_fuel_def
    using more_fuel_Primary [OF Suc] more_fuel_Paren [OF Suc] more_fuel_Identifier [OF Suc]
      more_fuel_args [OF Suc] more_fuel_BinOpRHS [OF Suc] more_fuel_Expression [OF Suc]
    by simp
qed

lemma fuel_Suc:
  "ParsePrimary n s = Some r \<Longrightarrow> ParsePrimary (Suc n) s = Some r"
  "ParseIdentifierExpr_args n a s = Some ra \<Longrightarrow> ParseIdentifierExpr_args (Suc n) a s = Some ra"
  "ParseBinOpRHS n p l s = Some r \<Longrightarrow> ParseBinOpRHS (Suc n) p l s = Some r"
  "ParseExpression n s = Some r \<Longrightarrow> ParseExpression (Suc n) s = Some r"
  using more_fuelD [OF more_fuel, of n] by simp_all

lemma fuel_add:
  "ParsePrimary n s = Some r \<Longrightarrow> ParsePrimary (n + k) s = Some r"
  "ParseIdentifierExpr_args n a s = Some ra \<Longrightarrow> ParseIdentifierExpr_args (n + k) a s = Some ra"
  "ParseBinOpRHS n p l s = Some r \<Longrightarrow> ParseBinOpRHS (n + k) p l s = Some r"
  "ParseExpression n s = Some r \<Longrightarrow> ParseExpression (n + k) s = Some r"
  by (induction k) (simp_all add: fuel_Suc)

lemma fuel_le:
  "n \<le> m \<Longrightarrow> ParsePrimary n s = Some r \<Longrightarrow> ParsePrimary m s = Some r"
  "n \<le> m \<Longrightarrow> ParseIdentifierExpr_args n a s = Some ra \<Longrightarrow> ParseIdentifierExpr_args m a s = Some ra"
  "n \<le> m \<Longrightarrow> ParseBinOpRHS n p l s = Some r \<Longrightarrow> ParseBinOpRHS m p l s = Some r"
  "n \<le> m \<Longrightarrow> ParseExpression n s = Some r \<Longrightarrow> ParseExpression m s = Some r"
  using fuel_add [where n = n and k = "m - n"] by simp_all

lemma map_option_SomeE: "map_option f x = Some y \<Longrightarrow> \<exists>z. x = Some z \<and> f z = y"
  by (cases x) auto

lemma ParseExpression_fuel:
  assumes "map_option f (ParseExpression n s) = Some e"
  shows "map_option f (ParseExpression (n + k) s) = Some e"
proof -
  from map_option_SomeE [OF assms] obtain z where "ParseExpression n s = Some z" "f z = e"
    by blast
  then show ?thesis
    using fuel_add(4) [of n s z k] by simp
qed

lemma ParseExpression_more:
  "n \<le> m \<Longrightarrow> ParseExpression n s \<noteq> None \<Longrightarrow> ParseExpression m s = ParseExpression n s"
  using fuel_le(4) [of n m s] by (cases "ParseExpression n s") simp_all

lemma HandleDefinition_more:
  assumes "n \<le> m" and "HandleDefinition n s \<noteq> None"
  shows "HandleDefinition m s = HandleDefinition n s"
proof -
  obtain P s2 where pr: "ParsePrototype (snd (getNextToken s)) = (P, s2)"
    by (cases "ParsePrototype (snd (getNextToken s))")
  show ?thesis
  proof (cases P)
    case None
    with pr show ?thesis
      by (simp add: HandleDefinition_def ParseDefinition_def Let_def)
  next
    case (Some Proto)
    with pr assms(2) have "ParseExpression n s2 \<noteq> None"
      by (auto simp: HandleDefinition_def ParseDefinition_def Let_def split: option.splits)
    with assms(1) have "ParseExpression m s2 = ParseExpression n s2"
      by (rule ParseExpression_more)
    with pr Some show ?thesis
      by (simp add: HandleDefinition_def ParseDefinition_def Let_def)
  qed
qed

lemma HandleTopLevelExpression_more:
  assumes "n \<le> m" and "HandleTopLevelExpression n s \<noteq> None"
  shows "HandleTopLevelExpression m s = HandleTopLevelExpression n s"
proof -
  from assms(2) have "ParseExpression n s \<noteq> None"
    by (auto simp: HandleTopLevelExpression_def ParseTopLevelExpr_def split: option.splits)
  with assms(1) have "ParseExpression m s = ParseExpression n s"
    by (rule ParseExpression_more)
  then show ?thesis
    by (simp add: HandleTopLevelExpression_def ParseTopLevelExpr_def)
qed

lemma MainLoop_Suc: "MainLoop n s \<noteq> None \<Longrightarrow> MainLoop (Suc n) s = MainLoop n s"
proof (induction n arbitrary: s)
  case 0
  then show ?case by (simp add: MainLoop.simps(1))
next
  case (Suc n)
  consider (eof) "CurTok s = tok_eof"
    | (semi) "CurTok s \<noteq> tok_eof" "CurTok s = toCharCode (ch CHR '';'')"
    | (def) "CurTok s \<noteq> tok_eof" "CurTok s \<noteq> toCharCode (ch CHR '';'')" "CurTok s = tok_def"
    | (ext) "CurTok s \<noteq> tok_eof" "CurTok s \<noteq> toCharCode (ch CHR '';'')" "CurTok s \<noteq> tok_def"
        "CurTok s = tok_extern"
    | (top) "CurTok s \<noteq> tok_eof" "CurTok s \<noteq> toCharCode (ch CHR '';'')" "CurTok s \<noteq> tok_def"
        "CurTok s \<noteq> tok_extern"
    by blast
  then show ?case
  proof cases
    case eof
    then show ?thesis
      by (simp add: MainLoop.simps(2))
  next
    case semi
    with Suc.prems have "MainLoop n (snd (getNextToken s)) \<noteq> None"
      by (simp add: MainLoop.simps(2) [of n])
    from Suc.IH [OF this] semi show ?thesis
      by (simp add: MainLoop.simps(2) [of n] MainLoop.simps(2) [of "Suc n"])
  next
    case def
    with Suc.prems obtain s1 where h: "HandleDefinition n s = Some s1" and l: "MainLoop n s1 \<noteq> None"
      by (cases "HandleDefinition n s") (simp_all add: MainLoop.simps(2) [of n])
    have "HandleDefinition (Suc n) s = Some s1"
      using HandleDefinition_more [of n "Suc n" s] h by simp
    with Suc.IH [OF l] def h show ?thesis
      by (simp add: MainLoop.simps(2) [of n] MainLoop.simps(2) [of "Suc n"])
  next
    case ext
    with Suc.prems have "MainLoop n (HandleExtern s) \<noteq> None"
      by (simp add: MainLoop.simps(2) [of n])
    from Suc.IH [OF this] ext show ?thesis
      by (simp add: MainLoop.simps(2) [of n] MainLoop.simps(2) [of "Suc n"])
  next
    case top
    with Suc.prems obtain s1 where h: "HandleTopLevelExpression n s = Some s1" and l: "MainLoop n s1 \<noteq> None"
      by (cases "HandleTopLevelExpression n s") (simp_all add: MainLoop.simps(2) [of n])
    have "HandleTopLevelExpression (Suc n) s = Some s1"
      using HandleTopLevelExpression_more [of n "Suc n" s] h by simp
    with Suc.IH [OF l] top h show ?thesis
      by (simp add: MainLoop.simps(2) [of n] MainLoop.simps(2) [of "Suc n"])
  qed
qed

lemma MainLoop_fuel: "MainLoop n s = Some r \<Longrightarrow> MainLoop (n + k) s = Some r"
  by (induction k) (simp_all add: MainLoop_Suc)



lemma main_fuel:
  assumes "map_option f (main n args u) = Some e"
  shows "map_option f (main (n + k) args u) = Some e"
proof -
  from map_option_SomeE [OF assms] obtain z where z: "main n args u = Some z" "f z = e"
    by blast
  then obtain s where "MainLoop n (startup args u) = Some s" "z = (0, s)"
    by (auto simp: main_def split: option.splits)
  then have "main (n + k) args u = Some z"
    by (simp add: main_def MainLoop_fuel)
  with z show ?thesis by simp
qed

section \<open>Operator precedence\<close>

lemma BinopPrecedence_install:
  "BinopPrecedence (install_binops s) =
     (BinopPrecedence s)(toCharCode (ch CHR ''<'') \<mapsto> 10, toCharCode (ch CHR ''+'') \<mapsto> 20,
        toCharCode (ch CHR ''-'') \<mapsto> 30, toCharCode (ch CHR ''*'') \<mapsto> 40)"
  by (simp add: install_binops_def BinopPrecedence_set_def)

lemma parse_1_plus_2_times_3:
  "map_option fst (ParseExpression 6 (startup [str ''1+2*3''] u)) =
     Some (Some (BinaryExprAST (toCharCode (ch CHR ''+'')) (NumberExprAST (Finite 1))
       (BinaryExprAST (toCharCode (ch CHR ''*'')) (NumberExprAST (Finite 2)) (NumberExprAST (Finite 3)))))"
  by code_simp

text \<open>
  C1. After \<^verbatim>\<open>main\<close> has installed the operators and read the first token of the input
  \<^verbatim>\<open>1+2*3\<close>, \<^verbatim>\<open>ParseExpression\<close> returns \<open>1 + (2 * 3)\<close>, whatever the bound from 6 on:
  \<^verbatim>\<open>*\<close>, which follows the right-hand side \<open>2\<close>, has the strictly higher precedence in the
  table (40 against 20), so \<open>2\<close> is attached to it first.
\<close>

theorem C1_tighter_operator_first:
  "map_option fst (ParseExpression (6 + k) (startup [str ''1+2*3''] u)) =
     Some (Some (BinaryExprAST (toCharCode (ch CHR ''+'')) (NumberExprAST (Finite 1))
       (BinaryExprAST (toCharCode (ch CHR ''*'')) (NumberExprAST (Finite 2)) (NumberExprAST (Finite 3)))))
   \<and> GetTokPrecedence ((install_binops s)\<lparr>CurTok := toCharCode (ch CHR ''+'')\<rparr>) = 20
   \<and> GetTokPrecedence ((install_binops s)\<lparr>CurTok := toCharCode (ch CHR ''*'')\<rparr>) = 40"
proof -
  have "toCharCode (ch CHR ''+'') \<noteq> toCharCode (ch CHR ''*'')"
    "toCharCode (ch CHR ''+'') \<noteq> toCharCode (ch CHR ''-'')"
    by (simp_all add: toCharCode_def ch_def)
  then show ?thesis
    using ParseExpression_fuel [OF parse_1_plus_2_times_3, of k u]
    by (simp add: GetTokPrecedence_def BinopPrecedence_install)
qed


lemma parse_1_minus_2_minus_3:
  "map_option fst (ParseExpression 6 (startup [str ''1-2-3''] u)) =
     Some (Some (BinaryExprAST (toCharCode (ch CHR ''-''))
       (BinaryExprAST (toCharCode (ch CHR ''-'')) (NumberExprAST (Finite 1)) (NumberExprAST (Finite 2)))
       (NumberExprAST (Finite 3))))"
  by code_simp

text \<open>
  C2. For the input \<^verbatim>\<open>1-2-3\<close>, \<^verbatim>\<open>ParseExpression\<close> returns \<open>(1 - 2) - 3\<close>: after the
  right-hand side \<open>2\<close> the next operator has the same precedence as the one consumed, the
  test \<^verbatim>\<open>TokPrec < NextPrec\<close> fails, and the loop merges \<open>1 - 2\<close> before it goes on.
\<close>

theorem C2_equal_precedence_groups_left:
  "map_option fst (ParseExpression (6 + k) (startup [str ''1-2-3''] u)) =
     Some (Some (BinaryExprAST (toCharCode (ch CHR ''-''))
       (BinaryExprAST (toCharCode (ch CHR ''-'')) (NumberExprAST (Finite 1)) (NumberExprAST (Finite 2)))
       (NumberExprAST (Finite 3))))"
  using parse_1_minus_2_minus_3 by (rule ParseExpression_fuel)

lemma parse_1_plus_2_minus_3:
  "map_option fst (ParseExpression 6 (startup [str ''1+2-3''] u)) =
     Some (Some (BinaryExprAST (toCharCode (ch CHR ''+'')) (NumberExprAST (Finite 1))
       (BinaryExprAST (toCharCode (ch CHR ''-'')) (NumberExprAST (Finite 2)) (NumberExprAST (Finite 3)))))"
  by code_simp

text \<open>
  C9. \<^verbatim>\<open>main\<close> installs \<^verbatim>\<open><\<close> at 10, \<^verbatim>\<open>+\<close> at 20, \<^verbatim>\<open>-\<close> at 30 and \<^verbatim>\<open>*\<close> at 40 into the
  empty table, so \<^verbatim>\<open>-\<close> binds tighter than \<^verbatim>\<open>+\<close>: for \<^verbatim>\<open>1+2-3\<close> the parser returns
  \<open>1 + (2 - 3)\<close>, and not the left-associated \<open>(1 + 2) - 3\<close>.
\<close>

theorem C9_minus_binds_tighter_than_plus:
  "BinopPrecedence (install_binops (initial args u)) =
     Map.empty(toCharCode (ch CHR ''<'') \<mapsto> 10, toCharCode (ch CHR ''+'') \<mapsto> 20,
       toCharCode (ch CHR ''-'') \<mapsto> 30, toCharCode (ch CHR ''*'') \<mapsto> 40)
   \<and> map_option fst (ParseExpression (6 + k) (startup [str ''1+2-3''] u)) =
     Some (Some (BinaryExprAST (toCharCode (ch CHR ''+'')) (NumberExprAST (Finite 1))
       (BinaryExprAST (toCharCode (ch CHR ''-'')) (NumberExprAST (Finite 2)) (NumberExprAST (Finite 3)))))
   \<and> map_option fst (ParseExpression (6 + k) (startup [str ''1+2-3''] u)) \<noteq>
     Some (Some (BinaryExprAST (toCharCode (ch CHR ''-''))
       (BinaryExprAST (toCharCode (ch CHR ''+'')) (NumberExprAST (Finite 1)) (NumberExprAST (Finite 2)))
       (NumberExprAST (Finite 3))))"
proof -
  let ?right = "BinaryExprAST (toCharCode (ch CHR ''+'')) (NumberExprAST (Finite 1))
       (BinaryExprAST (toCharCode (ch CHR ''-'')) (NumberExprAST (Finite 2)) (NumberExprAST (Finite 3)))"
  let ?left = "BinaryExprAST (toCharCode (ch CHR ''-''))
       (BinaryExprAST (toCharCode (ch CHR ''+'')) (NumberExprAST (Finite 1)) (NumberExprAST (Finite 2)))
       (NumberExprAST (Finite 3))"
  have table: "BinopPrecedence (install_binops (initial args u)) =
     Map.empty(toCharCode (ch CHR ''<'') \<mapsto> 10, toCharCode (ch CHR ''+'') \<mapsto> 20,
       toCharCode (ch CHR ''-'') \<mapsto> 30, toCharCode (ch CHR ''*'') \<mapsto> 40)"
    by (simp add: BinopPrecedence_install initial_def)
  have parsed: "map_option fst (ParseExpression (6 + k) (startup [str ''1+2-3''] u)) = Some (Some ?right)"
    using parse_1_plus_2_minus_3 by (rule ParseExpression_fuel)
  have "?right \<noteq> ?left"
    by (simp add: toCharCode_def ch_def)
  then have "map_option fst (ParseExpression (6 + k) (startup [str ''1+2-3''] u)) \<noteq> Some (Some ?left)"
    unfolding parsed by (metis option.inject)
  with table parsed show ?thesis
    by blast
qed

section \<open>Calls\<close>

lemma parse_call:
  "map_option fst (ParseExpression 8 (startup [str ''foo(1,2)''] u)) =
     Some (Some (CallExprAST (str ''foo'') [NumberExprAST (Finite 1), NumberExprAST (Finite 2)]))"
  by code_simp

lemma parse_call_unclosed:
  "map_option (\<lambda>(r, s). (r, console s)) (ParseExpression 8 (startup [str ''foo(1,2''] u)) =
     Some (None, [''LogError: Expected ')' or ',' in argument list''])"
  by code_simp

lemma main_call_unclosed:
  "map_option (\<lambda>(r, s). (r, console s)) (main 10 [str ''foo(1,2''] u) =
     Some (0, [''LogError: Expected ')' or ',' in argument list''])"
  by code_simp

text \<open>
  C6. For \<^verbatim>\<open>foo(1,2)\<close> the parser returns the call of \<^verbatim>\<open>foo\<close> with the arguments 1 and 2
  in this order. For \<^verbatim>\<open>foo(1,2\<close> it returns \<^verbatim>\<open>null\<close>, and the only line written is
  \<^verbatim>\<open>LogError: Expected ')' or ',' in argument list\<close>; it is the only line of the whole run
  of \<^verbatim>\<open>main\<close> on this input too.
\<close>

theorem C6_call_arguments_and_missing_paren:
  "map_option fst (ParseExpression (8 + k) (startup [str ''foo(1,2)''] u)) =
     Some (Some (CallExprAST (str ''foo'') [NumberExprAST (Finite 1), NumberExprAST (Finite 2)]))
   \<and> map_option (\<lambda>(r, s). (r, console s)) (ParseExpression (8 + k) (startup [str ''foo(1,2''] u)) =
     Some (None, [''LogError: Expected ')' or ',' in argument list''])
   \<and> map_option (\<lambda>(r, s). (r, console s)) (main (10 + k) [str ''foo(1,2''] u) =
     Some (0, [''LogError: Expected ')' or ',' in argument list''])"
  using ParseExpression_fuel [OF parse_call, of k u]
    ParseExpression_fuel [OF parse_call_unclosed, of k u]
    main_fuel [OF main_call_unclosed, of k u]
  by simp

section \<open>Top-level expressions\<close>

lemma parse_42:
  "map_option fst (ParseExpression 3 (startup [str ''42''] u)) = Some (Some (NumberExprAST (Finite 42)))"
  by code_simp

lemma ParseTopLevelExpr_wraps:
  "ParseTopLevelExpr n s =
     map_option (\<lambda>(r, s'). (map_option (FunctionAST (PrototypeAST (str '''') [])) r, s'))
       (ParseExpression n s)"
  by (simp add: ParseTopLevelExpr_def split: option.splits prod.splits)

text \<open>
  C7. \<^verbatim>\<open>ParseTopLevelExpr\<close> returns what \<^verbatim>\<open>ParseExpression\<close> returns, with a successful
  result \<open>E\<close> wrapped as the body of a function whose prototype has the empty name and no
  parameters, and with \<^verbatim>\<open>null\<close> left as it is. For the input \<^verbatim>\<open>42\<close> this is the function
  with body \<open>42\<close>.
\<close>

theorem C7_top_level_expression_wrapped:
  "ParseTopLevelExpr n s =
     map_option (\<lambda>(r, s'). (map_option (FunctionAST (PrototypeAST (str '''') [])) r, s'))
       (ParseExpression n s)
   \<and> map_option fst (ParseTopLevelExpr (3 + k) (startup [str ''42''] u)) =
     Some (Some (FunctionAST (PrototypeAST (str '''') []) (NumberExprAST (Finite 42))))"
proof -
  from map_option_SomeE [OF ParseExpression_fuel [OF parse_42, of k u]]
  obtain z where "ParseExpression (3 + k) (startup [str ''42''] u) = Some z"
    "fst z = Some (NumberExprAST (Finite 42))"
    by blast
  then show ?thesis
    by (simp add: ParseTopLevelExpr_wraps split_beta)
qed

section \<open>Tokens\<close>

lemma fromCharCode_toCharCode [simp]: "fromCharCode (toCharCode c) = c"
  by (simp add: fromCharCode_def toCharCode_def)

lemma toCharCode_eq_iff [simp]: "toCharCode c = toCharCode d \<longleftrightarrow> c = d"
  by (simp add: toCharCode_def word_uint_eq_iff)

lemma advance_Nil: "stream s = [] \<Longrightarrow> advance s = s\<lparr>LastChar := EOF\<rparr>"
  by (simp add: advance_def getchar_def)

lemma advance_Cons: "stream s = c # cs \<Longrightarrow> advance s = s\<lparr>stream := cs, LastChar := toCharCode c\<rparr>"
  by (simp add: advance_def getchar_def)

subsection \<open>End of stream\<close>

lemma skip_space_EOF: "LastChar s = EOF \<Longrightarrow> skip_space s = s"
  by (subst skip_space.simps) (simp add: EOF_class)

lemma gettok_EOF: "LastChar s = EOF \<Longrightarrow> gettok s = (tok_eof, s)"
  by (subst gettok.simps) (simp add: skip_space_EOF EOF_class EOF_not_char Let_def)

lemma gettoks_EOF:
  "LastChar s = EOF \<Longrightarrow>
   ((\<lambda>(ts, s). let (t, s') = gettok s in (ts @ [t], s')) ^^ n) (ts0, s) = (ts0 @ replicate n tok_eof, s)"
  by (induction n) (simp_all add: gettok_EOF replicate_append_same)

lemma gettok_eof_LastChar: "fst (gettok s) = tok_eof \<Longrightarrow> LastChar (snd (gettok s)) = EOF"
proof (induction s rule: gettok.induct)
  case (1 s0)
  let ?s = "skip_space s0"
  consider (ident) "isalpha (LastChar ?s)"
    | (num) "\<not> isalpha (LastChar ?s)" "isdigit (LastChar ?s) \<or> LastChar ?s = toCharCode (ch CHR ''.'')"
    | (rec) "\<not> isalpha (LastChar ?s)" "\<not> (isdigit (LastChar ?s) \<or> LastChar ?s = toCharCode (ch CHR ''.''))"
        "LastChar ?s = toCharCode (ch CHR ''#'') \<and> LastChar (comment_loop ?s) \<noteq> EOF"
    | (rest) "\<not> isalpha (LastChar ?s)" "\<not> (isdigit (LastChar ?s) \<or> LastChar ?s = toCharCode (ch CHR ''.''))"
        "\<not> (LastChar ?s = toCharCode (ch CHR ''#'') \<and> LastChar (comment_loop ?s) \<noteq> EOF)"
    by blast
  then show ?case
  proof cases
    case ident
    then have "fst (gettok s0) \<noteq> tok_eof"
      by (subst gettok.simps)
        (simp add: Let_def tok_def_def tok_extern_def tok_identifier_def tok_eof_def)
    with "1.prems" show ?thesis by simp
  next
    case num
    then have "fst (gettok s0) \<noteq> tok_eof"
      by (subst gettok.simps) (simp add: Let_def split_beta tok_number_def tok_eof_def)
    with "1.prems" show ?thesis by simp
  next
    case rec
    have eq: "gettok s0 = gettok (comment_loop ?s)"
      using rec by (subst gettok.simps) (simp add: Let_def)
    with "1.IH" [OF refl rec(1,2,3)] "1.prems" show ?thesis
      by simp
  next
    case rest
    let ?s2 = "if LastChar ?s = toCharCode (ch CHR ''#'') then comment_loop ?s else ?s"
    have eq: "gettok s0 = (if LastChar ?s2 = EOF then (tok_eof, ?s2) else (LastChar ?s2, advance ?s2))"
      using rest by (subst gettok.simps) (auto simp: Let_def)
    show ?thesis
    proof (cases "LastChar ?s2 = EOF")
      case True
      with eq show ?thesis by simp
    next
      case False
      with eq have "fst (gettok s0) \<noteq> tok_eof"
        by (simp add: EOF_def tok_eof_def)
      with "1.prems" show ?thesis by simp
    qed
  qed
qed

text \<open>
  C3. Once the lookahead \<^verbatim>\<open>LastChar\<close> holds \<^verbatim>\<open>EOF\<close>, any number \<open>n\<close> of calls of
  \<^verbatim>\<open>gettok\<close> returns \<open>n\<close> times \<^verbatim>\<open>tok_eof\<close> and leaves the whole state as it was: the
  lookahead, and the stream, from which nothing is taken. And the lookahead holds \<^verbatim>\<open>EOF\<close>
  as soon as \<^verbatim>\<open>gettok\<close> has returned \<^verbatim>\<open>tok_eof\<close> once.
\<close>

theorem C3_gettok_stays_at_EOF:
  "(LastChar s = EOF \<longrightarrow> gettoks n s = (replicate n tok_eof, s))
   \<and> (fst (gettok s) = tok_eof \<longrightarrow> LastChar (snd (gettok s)) = EOF)"
  using gettoks_EOF [of s n "[]"] gettok_eof_LastChar [of s] by (simp add: gettoks_def)

theorem C3_gettok_stays_at_EOF_witness:
  "LastChar (fresh\<lparr>LastChar := EOF\<rparr>) = EOF
   \<and> fst (gettok (fresh\<lparr>LastChar := EOF\<rparr>)) = tok_eof
   \<and> gettoks 3 (fresh\<lparr>LastChar := EOF\<rparr>) = (replicate 3 tok_eof, fresh\<lparr>LastChar := EOF\<rparr>)
   \<and> LastChar (snd (gettok (fresh\<lparr>LastChar := EOF\<rparr>))) = EOF"
proof -
  have "LastChar (fresh\<lparr>LastChar := EOF\<rparr>) = EOF"
    by simp
  moreover have "fst (gettok (fresh\<lparr>LastChar := EOF\<rparr>)) = tok_eof"
    by code_simp
  ultimately show ?thesis
    using C3_gettok_stays_at_EOF [of "fresh\<lparr>LastChar := EOF\<rparr>" 3] by blast
qed

subsection \<open>Numbers\<close>

text \<open>
  The text that \<^verbatim>\<open>gettok\<close> collects in \<^verbatim>\<open>NumStr\<close> and hands to \<^verbatim>\<open>parseFloat\<close> holds digits
  and dots only.
\<close>

lemma num_loop_chars:
  assumes "isdigit (LastChar s) \<or> LastChar s = toCharCode (ch CHR ''.'')"
    and "\<forall>c\<in>set b. in_range CHR ''0'' CHR ''9'' c \<or> c = ch CHR ''.''"
  shows "\<forall>c\<in>set (fst (num_loop b s)). in_range CHR ''0'' CHR ''9'' c \<or> c = ch CHR ''.''"
  using assms
proof (induction b s rule: num_loop.induct)
  case (1 NumStr s)
  let ?b = "NumStr @ [fromCharCode (LastChar s)]"
  let ?s' = "advance s"
  let ?c = "isdigit (LastChar ?s') \<or> LastChar ?s' = toCharCode (ch CHR ''.'')"
  from "1.prems"(1) have "in_range CHR ''0'' CHR ''9'' (fromCharCode (LastChar s))
      \<or> fromCharCode (LastChar s) = ch CHR ''.''"
    by (auto simp: isdigit_def)
  with "1.prems"(2) have b: "\<forall>c\<in>set ?b. in_range CHR ''0'' CHR ''9'' c \<or> c = ch CHR ''.''"
    by simp
  show ?case
  proof (cases ?c)
    case True
    then have "num_loop NumStr s = num_loop ?b ?s'"
      by (subst num_loop.simps) (auto simp: Let_def)
    with "1.IH" [OF refl refl True True b] show ?thesis
      by simp
  next
    case False
    then have "num_loop NumStr s = (?b, ?s')"
      by (subst num_loop.simps) (auto simp: Let_def)
    with b show ?thesis by simp
  qed
qed

lemma lex_numbers:
  "fst (gettoks 2 (initial [str ''3.14''] u)) = [tok_number, tok_eof]"
  "NumVal (snd (gettoks 1 (initial [str ''3.14''] u))) = Finite 3.14"
  "fst (gettoks 2 (initial [str ''3.1.4''] u)) = [tok_number, tok_eof]"
  "NumVal (snd (gettoks 1 (initial [str ''3.1.4''] u))) = Finite 3.1"
  "fst (num_loop [] (skip_space (initial [str ''3.1.4''] u))) = str ''3.1.4''"
  "parseFloat (str ''3.1.4'') = parseFloat (str ''3.1'')"
  by code_simp+

text \<open>
  C4. The text \<^verbatim>\<open>3.14\<close> is lexed as one number token with value 3.14, followed by the end
  of the stream. The text \<^verbatim>\<open>3.1.4\<close> is lexed as one number token too: the whole run
  \<^verbatim>\<open>3.1.4\<close> is collected in \<^verbatim>\<open>NumStr\<close>, and \<^verbatim>\<open>parseFloat\<close> gives it the value of its prefix
  \<^verbatim>\<open>3.1\<close>, which ends before the second dot.
\<close>

theorem C4_number_is_longest_valid_prefix:
  "fst (gettoks 2 (initial [str ''3.14''] u)) = [tok_number, tok_eof]
   \<and> NumVal (snd (gettoks 1 (initial [str ''3.14''] u))) = Finite 3.14
   \<and> fst (gettoks 2 (initial [str ''3.1.4''] u)) = [tok_number, tok_eof]
   \<and> NumVal (snd (gettoks 1 (initial [str ''3.1.4''] u))) = Finite 3.1
   \<and> fst (num_loop [] (skip_space (initial [str ''3.1.4''] u))) = str ''3.1.4''
   \<and> parseFloat (str ''3.1.4'') = parseFloat (str ''3.1'')"
  using lex_numbers by simp

lemma dot_class:
  "\<not> isspace (toCharCode (ch CHR ''.''))" "\<not> isalpha (toCharCode (ch CHR ''.''))"
  "\<not> isdigit (toCharCode (ch CHR ''.''))" "\<not> in_range CHR ''0'' CHR ''9'' (ch CHR ''.'')"
  by (simp_all add: isspace_def isalpha_def isdigit_def in_range_def ch_simps)

lemma num_loop_dots:
  "LastChar s = toCharCode (ch CHR ''.'') \<Longrightarrow> stream s = replicate k (ch CHR ''.'') @ rest \<Longrightarrow>
   run_ends rest \<Longrightarrow> fst (num_loop b s) = b @ replicate (Suc k) (ch CHR ''.'')"
proof (induction k arbitrary: b s)
  case 0
  then have "\<not> (isdigit (LastChar (advance s)) \<or> LastChar (advance s) = toCharCode (ch CHR ''.''))"
    by (cases rest) (simp_all add: LastChar_advance run_ends_def EOF_class EOF_not_char)
  with 0(1) show ?case
    by (subst num_loop.simps) (simp add: Let_def)
next
  case (Suc k)
  let ?s' = "s\<lparr>stream := replicate k (ch CHR ''.'') @ rest, LastChar := toCharCode (ch CHR ''.'')\<rparr>"
  from Suc(3) have adv: "advance s = ?s'"
    by (simp add: advance_Cons)
  have "fst (num_loop (b @ [ch CHR ''.'']) ?s') = (b @ [ch CHR ''.'']) @ replicate (Suc k) (ch CHR ''.'')"
    using Suc(1) [of ?s'] Suc(4) by simp
  with Suc(2) show ?case
    by (subst num_loop.simps) (simp add: adv Let_def replicate_app_Cons_same)
qed

lemma parseFloat_dots: "parseFloat (replicate k (ch CHR ''.'')) = NaN"
  by (cases k) (simp_all add: parseFloat_def Let_def dot_class)

lemma gettok_dots:
  assumes "LastChar s = toCharCode (ch CHR ''.'')" and "stream s = replicate k (ch CHR ''.'') @ rest"
    and "run_ends rest"
  shows "fst (gettok s) = tok_number \<and> NumVal (snd (gettok s)) = NaN"
proof -
  have "skip_space s = s"
    using assms(1) by (subst skip_space.simps) (simp add: dot_class)
  then show ?thesis
    using assms(1) num_loop_dots [OF assms, of "[]"] parseFloat_dots [of "Suc k"]
    by (subst (1 2) gettok.simps) (simp add: Let_def dot_class split_beta)
qed

lemma lex_dot:
  "fst (gettoks 2 (initial [str ''.''] u)) = [tok_number, tok_eof]"
  "NumVal (snd (gettoks 1 (initial [str ''.''] u))) = NaN"
  by code_simp+

text \<open>
  C10. When the lookahead is a dot and the run of digits and dots it starts has no digit
  (it is the dot, \<open>k\<close> more dots, and then the end of the stream or a character that is
  neither), \<^verbatim>\<open>gettok\<close> still returns \<^verbatim>\<open>tok_number\<close>, and \<^verbatim>\<open>NumVal\<close> is \<open>NaN\<close>. The input
  \<^verbatim>\<open>.\<close> is lexed as this one number token.
\<close>

theorem C10_digitless_run_is_NaN:
  "(LastChar s = toCharCode (ch CHR ''.'') \<and> stream s = replicate k (ch CHR ''.'') @ rest \<and> run_ends rest
      \<longrightarrow> fst (gettok s) = tok_number \<and> NumVal (snd (gettok s)) = NaN)
   \<and> fst (gettoks 2 (initial [str ''.''] u)) = [tok_number, tok_eof]
   \<and> NumVal (snd (gettoks 1 (initial [str ''.''] u))) = NaN"
  using gettok_dots [of s k rest] lex_dot [of u] by blast

theorem C10_digitless_run_is_NaN_witness:
  "(LastChar (fresh\<lparr>stream := str ''..x'', LastChar := toCharCode (ch CHR ''.'')\<rparr>) = toCharCode (ch CHR ''.'')
    \<and> stream (fresh\<lparr>stream := str ''..x'', LastChar := toCharCode (ch CHR ''.'')\<rparr>) =
        replicate 2 (ch CHR ''.'') @ str ''x''
    \<and> run_ends (str ''x''))
   \<and> fst (gettok (fresh\<lparr>stream := str ''..x'', LastChar := toCharCode (ch CHR ''.'')\<rparr>)) = tok_number
   \<and> NumVal (snd (gettok (fresh\<lparr>stream := str ''..x'', LastChar := toCharCode (ch CHR ''.'')\<rparr>))) = NaN"
proof -
  let ?s = "fresh\<lparr>stream := str ''..x'', LastChar := toCharCode (ch CHR ''.'')\<rparr>"
  have h: "LastChar ?s = toCharCode (ch CHR ''.'') \<and> stream ?s = replicate 2 (ch CHR ''.'') @ str ''x''
      \<and> run_ends (str ''x'')"
    by code_simp
  with C10_digitless_run_is_NaN [of ?s 2 "str ''x''"] show ?thesis
    by blast
qed

subsection \<open>Comments\<close>

lemma comment_loop_to_EOF:
  "\<forall>c\<in>set (stream s). c \<noteq> ch CHR 0x0A \<and> c \<noteq> ch CHR 0x0D \<Longrightarrow>
   comment_loop s = s\<lparr>stream := [], LastChar := EOF\<rparr>"
proof (induction "stream s" arbitrary: s)
  case Nil
  then have "advance s = s\<lparr>stream := [], LastChar := EOF\<rparr>"
    by (simp add: advance_Nil)
  then show ?case
    by (subst comment_loop.simps) (simp add: Let_def)
next
  case (Cons c cs)
  let ?s' = "s\<lparr>stream := cs, LastChar := toCharCode c\<rparr>"
  from Cons(2) have adv: "advance s = ?s'"
    by (simp add: advance_Cons)
  from Cons(2,3) have c: "c \<noteq> ch CHR 0x0A" "c \<noteq> ch CHR 0x0D"
    and cs: "\<forall>c\<in>set cs. c \<noteq> ch CHR 0x0A \<and> c \<noteq> ch CHR 0x0D"
    by (metis list.set_intros(1), metis list.set_intros(1), metis list.set_intros(2))
  have "comment_loop ?s' = ?s'\<lparr>stream := [], LastChar := EOF\<rparr>"
    using Cons(1) [of ?s'] cs by simp
  then show ?case
    using c by (subst comment_loop.simps) (simp add: adv Let_def EOF_not_char)
qed

lemma hash_class:
  "\<not> isspace (toCharCode (ch CHR ''#''))" "\<not> isalpha (toCharCode (ch CHR ''#''))"
  "\<not> isdigit (toCharCode (ch CHR ''#''))" "ch CHR ''#'' \<noteq> ch CHR ''.''"
  by (simp_all add: isspace_def isalpha_def isdigit_def in_range_def ch_simps)

lemma gettok_comment_to_EOF:
  assumes "LastChar s = toCharCode (ch CHR ''#'')"
    and "\<forall>c\<in>set (stream s). c \<noteq> ch CHR 0x0A \<and> c \<noteq> ch CHR 0x0D"
  shows "gettok s = (tok_eof, s\<lparr>stream := [], LastChar := EOF\<rparr>)"
proof -
  have "skip_space s = s"
    using assms(1) by (subst skip_space.simps) (simp add: hash_class)
  then show ?thesis
    using assms(1) comment_loop_to_EOF [OF assms(2)]
    by (subst gettok.simps) (simp add: Let_def hash_class)
qed

lemma skip_space_idem: "skip_space (skip_space s) = skip_space s"
proof (induction s rule: skip_space.induct)
  case (1 s)
  show ?case
  proof (cases "isspace (LastChar s)")
    case True
    then have "skip_space s = skip_space (advance s)"
      by (subst skip_space.simps) simp
    with 1 True show ?thesis by simp
  next
    case False
    then have "skip_space s = s"
      by (subst skip_space.simps) simp
    then show ?thesis by simp
  qed
qed

lemma gettok_skip_space: "gettok (skip_space s) = gettok s"
  apply (subst gettok.simps [of s])
  apply (subst gettok.simps [of "skip_space s"])
  apply (simp only: skip_space_idem)
  done

lemma gettok_comment_to_EOF_after_space:
  assumes "LastChar (skip_space s) = toCharCode (ch CHR ''#'')"
    and "\<forall>c\<in>set (stream (skip_space s)). c \<noteq> ch CHR 0x0A \<and> c \<noteq> ch CHR 0x0D"
  shows "gettok s = (tok_eof, (skip_space s)\<lparr>stream := [], LastChar := EOF\<rparr>)"
  using gettok_comment_to_EOF [OF assms] by (simp add: gettok_skip_space)

lemma lex_comment:
  "fst (gettoks 2 (initial [str ''# comment\<newline>42''] u)) = [tok_number, tok_eof]"
  "NumVal (snd (gettoks 1 (initial [str ''# comment\<newline>42''] u))) = Finite 42"
  "fst (gettoks 1 (initial [str ''# comment''] u)) = [tok_eof]"
  "stream (snd (gettoks 1 (initial [str ''# comment''] u))) = []"
  by code_simp+

text \<open>
  C5. The input \<^verbatim>\<open># comment\<close>, a newline and \<^verbatim>\<open>42\<close> is lexed as one token before the end
  of the stream, the number 42: the comment gives no token. The input \<^verbatim>\<open># comment\<close>, whose
  comment runs to the end of the stream, gives \<^verbatim>\<open>tok_eof\<close> at the first call of \<^verbatim>\<open>gettok\<close>,
  which reads the whole stream. In general, from any state: when the first character after the
  white space that \<^verbatim>\<open>gettok\<close> skips is \<^verbatim>\<open>#\<close> and no newline or carriage return follows it in
  the stream, the same call of \<^verbatim>\<open>gettok\<close> reads the stream to its end and returns \<^verbatim>\<open>tok_eof\<close>.
\<close>

theorem C5_comment_skipped:
  "fst (gettoks 2 (initial [str ''# comment\<newline>42''] u)) = [tok_number, tok_eof]
   \<and> NumVal (snd (gettoks 1 (initial [str ''# comment\<newline>42''] u))) = Finite 42
   \<and> fst (gettoks 1 (initial [str ''# comment''] u)) = [tok_eof]
   \<and> stream (snd (gettoks 1 (initial [str ''# comment''] u))) = []
   \<and> (LastChar (skip_space s) = toCharCode (ch CHR ''#'')
        \<and> (\<forall>c\<in>set (stream (skip_space s)). c \<noteq> ch CHR 0x0A \<and> c \<noteq> ch CHR 0x0D)
      \<longrightarrow> gettok s = (tok_eof, (skip_space s)\<lparr>stream := [], LastChar := EOF\<rparr>))"
  using lex_comment [of u] gettok_comment_to_EOF_after_space [of s] by blast

theorem C5_comment_skipped_witness:
  "(LastChar (skip_space (initial [str '' '', str ''# a comment''] fresh)) = toCharCode (ch CHR ''#'')
    \<and> ch CHR 0x0A \<notin> set (stream (skip_space (initial [str '' '', str ''# a comment''] fresh)))
    \<and> ch CHR 0x0D \<notin> set (stream (skip_space (initial [str '' '', str ''# a comment''] fresh))))
   \<and> gettok (initial [str '' '', str ''# a comment''] fresh) =
     (tok_eof, (skip_space (initial [str '' '', str ''# a comment''] fresh))\<lparr>stream := [], LastChar := EOF\<rparr>)"
proof -
  let ?s = "initial [str '' '', str ''# a comment''] fresh"
  have "LastChar (skip_space ?s) = toCharCode (ch CHR ''#'')"
    by code_simp
  moreover have "\<forall>c\<in>set (stream (skip_space ?s)). c \<noteq> ch CHR 0x0A \<and> c \<noteq> ch CHR 0x0D"
    by code_simp
  moreover have "ch CHR 0x0A \<notin> set (stream (skip_space ?s)) \<and> ch CHR 0x0D \<notin> set (stream (skip_space ?s))"
    by code_simp
  ultimately show ?thesis
    using C5_comment_skipped [of fresh ?s] by simp
qed

section \<open>The parser and the driver terminate\<close>








lemma pm_console [simp]: "pm (s\<lparr>console := x\<rparr>) = pm s"
  by (simp add: pm_def)

lemma LogError_simps [simp]:
  "fst (LogError m s) = None" "pm (snd (LogError m s)) = pm s" "CurTok (snd (LogError m s)) = CurTok s"
  by (simp_all add: LogError_def)
















lemma LogErrorP_simps [simp]: "pm (snd (LogErrorP m s)) = pm s"
  by (simp add: LogErrorP_def)


lemma pm_print [simp]: "pm (print l s) = pm s"
  by (simp add: print_def)










end
